theory Spec2Isabelle
  imports Main
begin

section \<open>Characters and strings of the spell checker\<close>

text \<open>
  The spell checker (\<^verbatim>\<open>src/main/services/preprocessing/impl/spellcheck.py\<close>) works on
  Python strings. The embedding covers ASCII text: a character is a \<^typ>\<open>char\<close>, and the
  character classes of Python (\<^verbatim>\<open>str.isspace\<close>, \<^verbatim>\<open>str.isupper\<close>, \<^verbatim>\<open>str.lower\<close>, the
  regular expression classes \<^verbatim>\<open>\s\<close>, \<^verbatim>\<open>\S\<close>, \<^verbatim>\<open>\d\<close>) are written out for the code points
  below 128; a character of code 128 or more is treated as caseless, not a digit and not
  white space.
\<close>

text \<open>The exceptions of the spell checker: \<^verbatim>\<open>IndexError\<close>, and whatever
  \<^verbatim>\<open>load_dictionary\<close> raises on a file it cannot read or decode (\<^verbatim>\<open>PermissionError\<close>,
  \<^verbatim>\<open>UnicodeDecodeError\<close>), kept as one error.\<close>

datatype error = IndexError | LoadError

definition code :: "char \<Rightarrow> nat" where
  "code c = of_char c"

text \<open>\<^verbatim>\<open>c.isspace()\<close> and the class \<^verbatim>\<open>\s\<close>: tab, line feed, vertical tab, form feed,
  carriage return, the four separators 0x1C to 0x1F, and the space.\<close>

definition isspace :: "char \<Rightarrow> bool" where
  "isspace c = ((9 \<le> code c \<and> code c \<le> 13) \<or> (28 \<le> code c \<and> code c \<le> 32))"

definition isupper :: "char \<Rightarrow> bool" where
  "isupper c = (65 \<le> code c \<and> code c \<le> 90)"

definition islower :: "char \<Rightarrow> bool" where
  "islower c = (97 \<le> code c \<and> code c \<le> 122)"

definition isdigit :: "char \<Rightarrow> bool" where
  "isdigit c = (48 \<le> code c \<and> code c \<le> 57)"

text \<open>The class \<^verbatim>\<open>[0-9a-fA-F]\<close>.\<close>

definition ishex :: "char \<Rightarrow> bool" where
  "ishex c = (isdigit c \<or> (97 \<le> code c \<and> code c \<le> 102) \<or> (65 \<le> code c \<and> code c \<le> 70))"

definition lower_char :: "char \<Rightarrow> char" where
  "lower_char c = (if isupper c then char_of (code c + 32) else c)"

definition upper_char :: "char \<Rightarrow> char" where
  "upper_char c = (if islower c then char_of (code c - 32) else c)"

text \<open>\<^verbatim>\<open>s.lower()\<close>, \<^verbatim>\<open>s.upper()\<close> and \<^verbatim>\<open>s.capitalize()\<close> (first character to upper case,
  all the others to lower case).\<close>

definition lower :: "string \<Rightarrow> string" where
  "lower s = map lower_char s"

definition upper :: "string \<Rightarrow> string" where
  "upper s = map upper_char s"

definition capitalize :: "string \<Rightarrow> string" where
  "capitalize s = (case s of [] \<Rightarrow> [] | c # cs \<Rightarrow> upper_char c # lower cs)"

text \<open>\<^verbatim>\<open>s.isspace()\<close>: at least one character, and all of them white space.\<close>

definition str_isspace :: "string \<Rightarrow> bool" where
  "str_isspace s = (s \<noteq> [] \<and> list_all isspace s)"

text \<open>\<^verbatim>\<open>s.isupper()\<close>: at least one cased character, and no cased character in lower
  case. Characters without case (digits, punctuation) are allowed.\<close>

definition str_isupper :: "string \<Rightarrow> bool" where
  "str_isupper s = (list_ex isupper s \<and> \<not> list_ex islower s)"

text \<open>\<^verbatim>\<open>s.startswith(p)\<close>.\<close>

definition startswith :: "string \<Rightarrow> string \<Rightarrow> bool" where
  "startswith s p = (take (length p) s = p)"

text \<open>\<^verbatim>\<open>s.strip(chars)\<close>: the characters of \<^verbatim>\<open>chars\<close> are removed from both ends.\<close>

definition strip :: "string \<Rightarrow> string \<Rightarrow> string" where
  "strip s chars =
     rev (dropWhile (\<lambda>c. c \<in> set chars) (rev (dropWhile (\<lambda>c. c \<in> set chars) s)))"

section \<open>The dictionary\<close>

text \<open>
  The dictionary engine is the library SymSpell, outside the repository. A suggestion is
  its \<^verbatim>\<open>SuggestItem\<close> (term, edit distance, corpus count); the loaded engine is the
  function \<^verbatim>\<open>lookup(phrase, verbosity, max_edit_distance)\<close>, taken as a parameter, so that
  a statement about every engine is a statement about every dictionary content.
\<close>

datatype verbosity = TOP | CLOSEST | ALL

record suggest_item =
  sterm :: string
  distance :: nat
  count :: nat

record sym_spell =
  lookup :: "string \<Rightarrow> verbosity \<Rightarrow> nat \<Rightarrow> suggest_item list"

section \<open>The tokenizer\<close>

text \<open>
  \<^verbatim>\<open>re.findall(r'(\S+|\s+)', text)\<close>. At each position the scan tries the greedy run
  \<^verbatim>\<open>\S+\<close>, then the greedy run \<^verbatim>\<open>\s+\<close>; a match is collected and the scan goes on after
  it, and a position where neither matches is passed over.
\<close>

definition match_plus :: "(char \<Rightarrow> bool) \<Rightarrow> string \<Rightarrow> (string \<times> string) option" where
  "match_plus P s =
     (if takeWhile P s = [] then None else Some (takeWhile P s, dropWhile P s))"

function findall_runs :: "string \<Rightarrow> string list" where
  "findall_runs [] = []"
| "findall_runs (c # cs) =
     (case match_plus (\<lambda>x. \<not> isspace x) (c # cs) of
        Some (m, rest) \<Rightarrow> m # findall_runs rest
      | None \<Rightarrow>
          (case match_plus isspace (c # cs) of
             Some (m, rest) \<Rightarrow> m # findall_runs rest
           | None \<Rightarrow> findall_runs cs))"
  by pat_completeness auto
termination
proof (relation "measure length")
  show "wf (measure length)" by simp
next
  fix c cs x2 x y
  assume "match_plus (\<lambda>x. \<not> isspace x) (c # cs) = Some x2" "(x, y) = x2"
  then have "y = dropWhile (\<lambda>x. \<not> isspace x) (c # cs)" "takeWhile (\<lambda>x. \<not> isspace x) (c # cs) \<noteq> []"
    by (auto simp: match_plus_def split: if_splits)
  then have "length y < length (c # cs)"
    by (auto simp: length_dropWhile_le less_Suc_eq_le split: if_splits)
  then show "(y, c # cs) \<in> measure length" by simp
next
  fix c cs x2 x y
  assume "match_plus isspace (c # cs) = Some x2" "(x, y) = x2"
  then have "y = dropWhile isspace (c # cs)" "takeWhile isspace (c # cs) \<noteq> []"
    by (auto simp: match_plus_def split: if_splits)
  then have "length y < length (c # cs)"
    by (auto simp: length_dropWhile_le less_Suc_eq_le split: if_splits)
  then show "(y, c # cs) \<in> measure length" by simp
next
  fix c :: char and cs :: string
  show "(cs, c # cs) \<in> measure length" by simp
qed

definition tokenize :: "string \<Rightarrow> string list" where
  "tokenize text = findall_runs text"

section \<open>The token correction pipeline\<close>

text \<open>The characters stripped by \<^verbatim>\<open>_extract_word\<close>:
  \<^verbatim>\<open>.,!?;:"'()[]{}|<>/*-+=@#$%^&~`\<close>.\<close>

definition punctuation :: string where
  "punctuation = ''.,!?;:'' @ [CHR 0x22, CHR 0x27] @ ''()[]{}|<>/*-+=@#$%^&~'' @ [CHR 0x60]"

text \<open>\<^verbatim>\<open>_extract_word\<close>: the word is the token stripped at both ends; the "trailing" part
  is \<^verbatim>\<open>token[len(word):]\<close>, the token without its first \<^verbatim>\<open>len(word)\<close> characters.\<close>

definition extract_word :: "string \<Rightarrow> string \<times> string" where
  "extract_word token =
     (let word = strip token punctuation;
          trailing = drop (length word) token
      in (word, trailing))"

definition is_url :: "string \<Rightarrow> bool" where
  "is_url word =
     (startswith word ''http://'' \<or> startswith word ''https://'' \<or> startswith word ''www.'')"

definition is_file_path :: "string \<Rightarrow> bool" where
  "is_file_path word =
     (CHR ''/'' \<in> set word \<or> CHR 0x5C \<in> set word \<or> startswith word ''.'')"

text \<open>\<^verbatim>\<open>re.search\<close> of a greedy run \<^verbatim>\<open>[P]{n,}\<close>: some position starts a run of at
  least \<open>n\<close> characters of the class.\<close>

fun search_run :: "(char \<Rightarrow> bool) \<Rightarrow> nat \<Rightarrow> string \<Rightarrow> bool" where
  "search_run P n [] = (n = 0)"
| "search_run P n (c # cs) = (n \<le> length (takeWhile P (c # cs)) \<or> search_run P n cs)"

text \<open>\<^verbatim>\<open>re.search(r'[A-Z]{2,}', word)\<close>.\<close>

definition is_acronym :: "string \<Rightarrow> bool" where
  "is_acronym word = search_run isupper 2 word"

text \<open>\<^verbatim>\<open>len(word) > 1 and any(c.isupper() for c in word[1:])\<close>.\<close>

definition is_camel_case :: "string \<Rightarrow> bool" where
  "is_camel_case word = (length word > 1 \<and> list_ex isupper (drop 1 word))"

definition has_underscores :: "string \<Rightarrow> bool" where
  "has_underscores word = (CHR ''_'' \<in> set word)"

text \<open>The anchor \<^verbatim>\<open>$\<close> of Python matches at the end of the string and before a line feed
  that ends the string.\<close>

definition at_end :: "string \<Rightarrow> bool" where
  "at_end rest = (rest = [] \<or> rest = [CHR 0x0A])"

text \<open>A prefix, then a greedy non-empty run of a class, then \<^verbatim>\<open>$\<close>.\<close>

definition match_prefix_run :: "string \<Rightarrow> (char \<Rightarrow> bool) \<Rightarrow> string \<Rightarrow> bool" where
  "match_prefix_run p P word =
     (startswith word p \<and>
      (case match_plus P (drop (length p) word) of
         None \<Rightarrow> False
       | Some (m, rest) \<Rightarrow> at_end rest))"

text \<open>\<^verbatim>\<open>re.match(r'^(#[0-9a-fA-F]+|0x[0-9a-fA-F]+|\d+)$', word)\<close>.\<close>

definition is_code_pattern :: "string \<Rightarrow> bool" where
  "is_code_pattern word =
     (match_prefix_run ''#'' ishex word \<or> match_prefix_run ''0x'' ishex word \<or>
      match_prefix_run [] isdigit word)"

definition should_skip_correction :: "string \<Rightarrow> bool" where
  "should_skip_correction word =
     (if word = [] then True
      else (is_url word \<or> is_file_path word \<or> is_acronym word \<or> is_camel_case word \<or>
            has_underscores word \<or> is_code_pattern word))"

text \<open>\<^verbatim>\<open>_word_exists_in_dictionary\<close>: \<^verbatim>\<open>lookup and lookup[0].count > 1000\<close>, read as a
  truth value.\<close>

definition word_exists_in_dictionary :: "sym_spell \<Rightarrow> string \<Rightarrow> bool" where
  "word_exists_in_dictionary d word =
     (case lookup d (lower word) TOP 0 of
        [] \<Rightarrow> False
      | s # _ \<Rightarrow> count s > 1000)"

definition get_suggestions :: "sym_spell \<Rightarrow> string \<Rightarrow> suggest_item list" where
  "get_suggestions d word = lookup d (lower word) CLOSEST 2"

definition is_minor_typo :: "string \<Rightarrow> suggest_item \<Rightarrow> bool" where
  "is_minor_typo original suggestion =
     (if distance suggestion = 1 \<and> length original \<ge> 4
      then set (lower original) \<noteq> set (sterm suggestion)
      else False)"

text \<open>\<^verbatim>\<open>_preserve_case\<close>. \<^verbatim>\<open>original[0]\<close> raises IndexError on the empty string.\<close>

definition preserve_case :: "string \<Rightarrow> string \<Rightarrow> error + string" where
  "preserve_case original corrected =
     (if str_isupper original then Inr (upper corrected)
      else (case original of
              [] \<Rightarrow> Inl IndexError
            | c # _ \<Rightarrow> if isupper c then Inr (capitalize corrected) else Inr corrected))"

definition apply_correction :: "sym_spell \<Rightarrow> string \<Rightarrow> error + string" where
  "apply_correction d word =
     (if word_exists_in_dictionary d word then Inr word
      else (case get_suggestions d word of
              [] \<Rightarrow> Inr word
            | s # _ \<Rightarrow>
                if is_minor_typo word s then Inr word
                else preserve_case word (sterm s)))"

definition correct_token :: "sym_spell \<Rightarrow> string \<Rightarrow> error + string" where
  "correct_token d token =
     (if str_isspace token then Inr token
      else (case extract_word token of
              (word, trailing_punctuation) \<Rightarrow>
                if should_skip_correction word then Inr token
                else (case apply_correction d word of
                        Inl e \<Rightarrow> Inl e
                      | Inr corrected_word \<Rightarrow> Inr (corrected_word @ trailing_punctuation))))"

text \<open>The list comprehension of \<^verbatim>\<open>correct_text\<close>: the tokens are corrected in order and
  the first exception ends the run.\<close>

fun correct_tokens :: "sym_spell \<Rightarrow> string list \<Rightarrow> error + string list" where
  "correct_tokens d [] = Inr []"
| "correct_tokens d (t # ts) =
     (case correct_token d t of
        Inl e \<Rightarrow> Inl e
      | Inr c \<Rightarrow> (case correct_tokens d ts of Inl e \<Rightarrow> Inl e | Inr cs \<Rightarrow> Inr (c # cs)))"

text \<open>\<^verbatim>\<open>correct_text\<close>. The attribute \<^verbatim>\<open>self.sym_spell\<close> is \<^verbatim>\<open>None\<close> when no dictionary
  was loaded.\<close>

definition correct_text :: "sym_spell option \<Rightarrow> string \<Rightarrow> error + string" where
  "correct_text checker text =
     (case checker of
        None \<Rightarrow> Inr text
      | Some d \<Rightarrow>
          (case correct_tokens d (tokenize text) of
             Inl e \<Rightarrow> Inl e
           | Inr corrected_tokens \<Rightarrow> Inr (concat corrected_tokens)))"

text \<open>
  \<^verbatim>\<open>_create_spell_checker\<close>. The file system and the network are the environment: whether
  the dictionary file exists at start, whether the download creates it (a failed download
  is caught and only logged), and what \<^verbatim>\<open>load_dictionary\<close> does with the file: it fills
  the engine, or it raises. The call is not guarded, so its exception leaves
  \<^verbatim>\<open>_create_spell_checker\<close> and the constructor \<^verbatim>\<open>SpellChecker()\<close>.
\<close>

record dict_env =
  file_exists :: bool
  download_creates_file :: bool
  load_dictionary :: "error + sym_spell"

definition create_spell_checker :: "dict_env \<Rightarrow> error + sym_spell option" where
  "create_spell_checker env =
     (let exists_after = (if \<not> file_exists env then download_creates_file env else True)
      in if exists_after
         then (case load_dictionary env of Inl e \<Rightarrow> Inl e | Inr d \<Rightarrow> Inr (Some d))
         else Inr None)"

text \<open>\<^verbatim>\<open>main\<close> of the spell checker: the text read from the standard input, the checker
  constructed, the text corrected and printed with a line feed. The result is what is
  printed, or the exception that ends the process.\<close>

definition spellcheck_main :: "dict_env \<Rightarrow> string \<Rightarrow> error + string" where
  "spellcheck_main env text =
     (case create_spell_checker env of
        Inl e \<Rightarrow> Inl e
      | Inr checker \<Rightarrow>
          (case correct_text checker text of
             Inl e \<Rightarrow> Inl e
           | Inr corrected \<Rightarrow> Inr (corrected @ [CHR 0x0A])))"

section \<open>Properties of token lists\<close>

text \<open>A run is a non-empty token of one class: all white space, or no white space.\<close>

definition is_run :: "string \<Rightarrow> bool" where
  "is_run t = (t \<noteq> [] \<and> (list_all isspace t \<or> list_all (\<lambda>c. \<not> isspace c) t))"

text \<open>Neighbouring tokens are of different classes, so that no run can be extended.\<close>

fun alternating :: "string list \<Rightarrow> bool" where
  "alternating (a # b # ts) = (str_isspace a \<noteq> str_isspace b \<and> alternating (b # ts))"
| "alternating ts = True"

text \<open>The tokens that \<^verbatim>\<open>_correct_token\<close> returns as they are: white-space tokens, and
  tokens whose stripped word is empty or caught by a rule of the eligibility filter.\<close>

definition skipped :: "string \<Rightarrow> bool" where
  "skipped token = (str_isspace token \<or> should_skip_correction (fst (extract_word token)))"

text \<open>A word of two or more characters, all of them upper-case letters.\<close>

definition multi_letter_upper :: "string \<Rightarrow> bool" where
  "multi_letter_upper word = (length word > 1 \<and> list_all isupper word)"

section \<open>Example dictionaries\<close>

text \<open>An engine that knows one answer: the suggestion \<open>item\<close> for the phrase \<open>query\<close>,
  given whenever the allowed edit distance reaches the distance of the suggestion.\<close>

definition one_entry_engine :: "string \<Rightarrow> suggest_item \<Rightarrow> sym_spell" where
  "one_entry_engine query item =
     \<lparr>lookup = (\<lambda>phrase v max_edit_distance.
         if phrase = query \<and> distance item \<le> max_edit_distance then [item] else [])\<rparr>"

definition suggestion :: "string \<Rightarrow> nat \<Rightarrow> nat \<Rightarrow> suggest_item" where
  "suggestion t dist n = \<lparr>sterm = t, distance = dist, count = n\<rparr>"

text \<open>The phrase "helllo" with the suggestion "hello" at distance 1.\<close>

definition helllo_engine :: sym_spell where
  "helllo_engine = one_entry_engine ''helllo'' (suggestion ''hello'' 1 5000)"

text \<open>The phrase "teh" with the suggestion "the" at distance 1.\<close>

definition teh_engine :: sym_spell where
  "teh_engine = one_entry_engine ''teh'' (suggestion ''the'' 1 5000)"

text \<open>The phrase "aabb" with the suggestion "abab" at distance 1 (one transposition).\<close>

definition aabb_engine :: sym_spell where
  "aabb_engine = one_entry_engine ''aabb'' (suggestion ''abab'' 1 5)"

text \<open>The phrase "hallo" with the suggestion "hello" at distance 1 (one substitution).\<close>

definition hallo_engine :: sym_spell where
  "hallo_engine = one_entry_engine ''hallo'' (suggestion ''hello'' 1 5000)"

text \<open>The phrase "the", itself in the dictionary with a large count.\<close>

definition the_engine :: sym_spell where
  "the_engine = one_entry_engine ''the'' (suggestion ''the'' 0 5000)"

text \<open>An engine with no entry: every lookup is empty.\<close>

definition empty_engine :: sym_spell where
  "empty_engine = \<lparr>lookup = (\<lambda>phrase v max_edit_distance. [])\<rparr>"

text \<open>No dictionary file, and a download that fails.\<close>

definition missing_env :: dict_env where
  "missing_env =
     \<lparr>file_exists = False, download_creates_file = False, load_dictionary = Inr helllo_engine\<rparr>"

text \<open>A dictionary file that exists and that \<^verbatim>\<open>load_dictionary\<close> cannot decode.\<close>

definition undecodable_env :: dict_env where
  "undecodable_env =
     \<lparr>file_exists = True, download_creates_file = False, load_dictionary = Inl LoadError\<rparr>"

text \<open>A dictionary file that exists and holds no entry that can be read.\<close>

definition no_entry_env :: dict_env where
  "no_entry_env =
     \<lparr>file_exists = True, download_creates_file = False, load_dictionary = Inr empty_engine\<rparr>"

text \<open>The phrase "b2" with the suggestion "be" at distance 1.\<close>

definition b2_engine :: sym_spell where
  "b2_engine = one_entry_engine ''b2'' (suggestion ''be'' 1 5000)"

section \<open>The classifier service\<close>






















subsection \<open>An example environment\<close>






section \<open>The tokenizer is lossless\<close>

lemma findall_runs_Cons:
  "findall_runs (c # cs) =
     (if isspace c
      then (c # takeWhile isspace cs) # findall_runs (dropWhile isspace cs)
      else (c # takeWhile (\<lambda>x. \<not> isspace x) cs) # findall_runs (dropWhile (\<lambda>x. \<not> isspace x) cs))"
  by (simp add: match_plus_def)

declare findall_runs.simps(2) [simp del]

lemma list_all_takeWhile: "list_all P (takeWhile P xs)"
  by (auto simp: list_all_iff dest: set_takeWhileD)

lemma concat_findall_runs: "concat (findall_runs s) = s"
proof (induction s rule: length_induct)
  case (1 s)
  show ?case
  proof (cases s)
    case Nil
    then show ?thesis by simp
  next
    case (Cons c cs)
    have l1: "length (dropWhile isspace cs) < length s"
      using Cons by (simp add: length_dropWhile_le less_Suc_eq_le)
    have l2: "length (dropWhile (\<lambda>x. \<not> isspace x) cs) < length s"
      using Cons by (simp add: length_dropWhile_le less_Suc_eq_le)
    from 1 l1 have h1: "concat (findall_runs (dropWhile isspace cs)) = dropWhile isspace cs"
      by blast
    from 1 l2 have h2: "concat (findall_runs (dropWhile (\<lambda>x. \<not> isspace x) cs)) = dropWhile (\<lambda>x. \<not> isspace x) cs"
      by blast
    show ?thesis
      unfolding Cons findall_runs_Cons using h1 h2 by simp
  qed
qed

lemma runs_findall_runs: "list_all is_run (findall_runs s)"
proof (induction s rule: length_induct)
  case (1 s)
  show ?case
  proof (cases s)
    case Nil
    then show ?thesis by simp
  next
    case (Cons c cs)
    have l1: "length (dropWhile isspace cs) < length s"
      using Cons by (simp add: length_dropWhile_le less_Suc_eq_le)
    have l2: "length (dropWhile (\<lambda>x. \<not> isspace x) cs) < length s"
      using Cons by (simp add: length_dropWhile_le less_Suc_eq_le)
    from 1 l1 have h1: "list_all is_run (findall_runs (dropWhile isspace cs))"
      by blast
    from 1 l2 have h2: "list_all is_run (findall_runs (dropWhile (\<lambda>x. \<not> isspace x) cs))"
      by blast
    have t1: "list_all isspace (takeWhile isspace cs)"
      by (rule list_all_takeWhile)
    have t2: "list_all (\<lambda>x. \<not> isspace x) (takeWhile (\<lambda>x. \<not> isspace x) cs)"
      by (rule list_all_takeWhile)
    have r1: "isspace c \<Longrightarrow> is_run (c # takeWhile isspace cs)"
      using t1 by (simp add: is_run_def)
    have r2: "\<not> isspace c \<Longrightarrow> is_run (c # takeWhile (\<lambda>x. \<not> isspace x) cs)"
      using t2 by (simp add: is_run_def)
    show ?thesis
      unfolding Cons findall_runs_Cons using h1 h2 r1 r2 by simp
  qed
qed

lemma hd_findall_runs_space:
  "s \<noteq> [] \<Longrightarrow> str_isspace (hd (findall_runs s)) = isspace (hd s)"
proof (cases s)
  case Nil
  assume "s \<noteq> []" with Nil show ?thesis by simp
next
  case (Cons c cs)
  have t1: "list_all isspace (takeWhile isspace cs)"
    by (rule list_all_takeWhile)
  show ?thesis unfolding Cons findall_runs_Cons using t1 by (simp add: str_isspace_def)
qed

lemma alternating_Cons:
  "alternating (a # ts) = (ts = [] \<or> (str_isspace a \<noteq> str_isspace (hd ts) \<and> alternating ts))"
  by (cases ts) auto

lemma findall_runs_eq_Nil: "(findall_runs s = []) = (s = [])"
  by (cases s) (simp_all add: findall_runs_Cons)

lemma alternating_findall_runs: "alternating (findall_runs s)"
proof (induction s rule: length_induct)
  case (1 s)
  show ?case
  proof (cases s)
    case Nil
    then show ?thesis by simp
  next
    case (Cons c cs)
    have l1: "length (dropWhile isspace cs) < length s"
      using Cons by (simp add: length_dropWhile_le less_Suc_eq_le)
    have l2: "length (dropWhile (\<lambda>x. \<not> isspace x) cs) < length s"
      using Cons by (simp add: length_dropWhile_le less_Suc_eq_le)
    from 1 l1 have h1: "alternating (findall_runs (dropWhile isspace cs))"
      by blast
    from 1 l2 have h2: "alternating (findall_runs (dropWhile (\<lambda>x. \<not> isspace x) cs))"
      by blast
    have t1: "list_all isspace (takeWhile isspace cs)"
      by (rule list_all_takeWhile)
    have d1: "dropWhile isspace cs \<noteq> [] \<Longrightarrow> \<not> isspace (hd (dropWhile isspace cs))"
      using hd_dropWhile by blast
    have d2: "dropWhile (\<lambda>x. \<not> isspace x) cs \<noteq> [] \<Longrightarrow> isspace (hd (dropWhile (\<lambda>x. \<not> isspace x) cs))"
      using hd_dropWhile[of "\<lambda>x. \<not> isspace x" cs] by blast
    show ?thesis
    proof (cases "isspace c")
      case sp: True
      have "alternating ((c # takeWhile isspace cs) # findall_runs (dropWhile isspace cs))"
      proof (cases "dropWhile isspace cs = []")
        case True
        then have "findall_runs (dropWhile isspace cs) = []"
          by (simp only: findall_runs.simps)
        then show ?thesis by (simp only: alternating.simps)
      next
        case nonempty: False
        have a: "str_isspace (c # takeWhile isspace cs)"
          using sp t1 by (simp add: str_isspace_def)
        have b: "\<not> str_isspace (hd (findall_runs (dropWhile isspace cs)))"
          using nonempty d1 by (simp add: hd_findall_runs_space)
        show ?thesis
          by (subst alternating_Cons) (use a b h1 in simp)
      qed
      then show ?thesis
        unfolding Cons findall_runs_Cons using sp by simp
    next
      case nsp: False
      have "alternating ((c # takeWhile (\<lambda>x. \<not> isspace x) cs) #
               findall_runs (dropWhile (\<lambda>x. \<not> isspace x) cs))"
      proof (cases "dropWhile (\<lambda>x. \<not> isspace x) cs = []")
        case True
        then have "findall_runs (dropWhile (\<lambda>x. \<not> isspace x) cs) = []"
          by (simp only: findall_runs.simps)
        then show ?thesis by (simp only: alternating.simps)
      next
        case nonempty: False
        have a: "\<not> str_isspace (c # takeWhile (\<lambda>x. \<not> isspace x) cs)"
          using nsp by (simp add: str_isspace_def)
        have b: "str_isspace (hd (findall_runs (dropWhile (\<lambda>x. \<not> isspace x) cs)))"
          using nonempty d2 by (simp add: hd_findall_runs_space)
        show ?thesis
          by (subst alternating_Cons) (use a b h2 in simp)
      qed
      then show ?thesis
        unfolding Cons findall_runs_Cons using nsp by simp
    qed
  qed
qed

text \<open>
  Claim C4 (tokenizer losslessness). For every input string, the tokens of \<open>tokenize\<close>
  concatenated in order are the input; every token is a non-empty run of one class (white
  space or not), neighbouring tokens are of different classes, so that the runs are
  maximal and alternate, and the empty input has no tokens.
\<close>

theorem tokenize_lossless:
  "concat (tokenize text) = text \<and> list_all is_run (tokenize text) \<and>
   alternating (tokenize text) \<and> tokenize [] = []"
  by (simp add: tokenize_def concat_findall_runs runs_findall_runs alternating_findall_runs)

theorem tokenize_lossless_witness:
  "tokenize ''ab  c'' = [''ab'', ''  '', ''c''] \<and>
   concat (tokenize ''ab  c'') = ''ab  c'' \<and> list_all is_run (tokenize ''ab  c'') \<and>
   alternating (tokenize ''ab  c'')"
  using tokenize_lossless [of "''ab  c''"]
  by (simp add: tokenize_def findall_runs_Cons isspace_def code_def)

section \<open>The pipeline never raises\<close>

text \<open>The only raising expression of the pipeline, \<^verbatim>\<open>original[0]\<close>, is never reached with
  an empty word: the eligibility filter skips the empty word.\<close>

lemma preserve_case_total:
  "original \<noteq> [] \<Longrightarrow> \<exists>r. preserve_case original corrected = Inr r"
  by (cases original) (simp_all add: preserve_case_def)

lemma apply_correction_total:
  "word \<noteq> [] \<Longrightarrow> \<exists>r. apply_correction d word = Inr r"
  using preserve_case_total [of word]
  by (simp add: apply_correction_def split: list.split)

lemma should_skip_Nil: "should_skip_correction []"
  by (simp add: should_skip_correction_def)

lemma correct_token_total: "\<exists>r. correct_token d token = Inr r"
proof (cases "str_isspace token \<or> should_skip_correction (fst (extract_word token))")
  case True
  then show ?thesis by (auto simp: correct_token_def split: prod.split)
next
  case False
  then have "fst (extract_word token) \<noteq> []" using should_skip_Nil by auto
  from apply_correction_total [OF this, of d] obtain r
    where "apply_correction d (fst (extract_word token)) = Inr r" by blast
  with False show ?thesis by (auto simp: correct_token_def split: prod.split)
qed

lemma correct_token_skipped: "skipped token \<Longrightarrow> correct_token d token = Inr token"
  by (auto simp: skipped_def correct_token_def split: prod.split)

lemma correct_tokens_total:
  "\<exists>cs. correct_tokens d ts = Inr cs \<and> length cs = length ts \<and>
        (\<forall>i<length ts. correct_token d (ts ! i) = Inr (cs ! i))"
proof (induction ts)
  case Nil
  show ?case by simp
next
  case (Cons t ts)
  then obtain cs where cs: "correct_tokens d ts = Inr cs" "length cs = length ts"
    "\<forall>i<length ts. correct_token d (ts ! i) = Inr (cs ! i)" by blast
  obtain c where c: "correct_token d t = Inr c" using correct_token_total by blast
  have "\<forall>i<length (t # ts). correct_token d ((t # ts) ! i) = Inr ((c # cs) ! i)"
    using c cs(3) by (auto simp: nth_Cons split: nat.split)
  with c cs show ?case by simp
qed

lemma single_skipped_token:
  "tokenize t = [t] \<Longrightarrow> skipped t \<Longrightarrow> correct_text checker t = Inr t"
  by (cases checker) (simp_all add: correct_text_def correct_token_skipped)

lemma isupper_not_islower: "isupper c \<Longrightarrow> \<not> islower c"
  by (simp add: isupper_def islower_def)

lemma all_upper_str_isupper:
  "original \<noteq> [] \<Longrightarrow> list_all isupper original \<Longrightarrow> str_isupper original"
  by (cases original) (auto simp: str_isupper_def list_all_iff list_ex_iff isupper_not_islower)

lemma word_exists_lower:
  "lower w = lower w' \<Longrightarrow> word_exists_in_dictionary d w = word_exists_in_dictionary d w'"
  by (simp add: word_exists_in_dictionary_def)

lemma get_suggestions_lower:
  "lower w = lower w' \<Longrightarrow> get_suggestions d w = get_suggestions d w'"
  by (simp add: get_suggestions_def)

lemma apply_correction_short:
  "\<not> word_exists_in_dictionary d w \<Longrightarrow> get_suggestions d w = s # rest \<Longrightarrow> length w < 4 \<Longrightarrow>
   apply_correction d w = preserve_case w (sterm s)"
  by (simp add: apply_correction_def is_minor_typo_def)

lemma correct_text_single:
  "tokenize t = [t] \<Longrightarrow> correct_token d t = Inr r \<Longrightarrow> correct_text (Some d) t = Inr r"
  by (simp add: correct_text_def)

lemma correct_token_applied:
  "\<not> str_isspace token \<Longrightarrow> extract_word token = (w, trailing) \<Longrightarrow>
   \<not> should_skip_correction w \<Longrightarrow> apply_correction d w = Inr c \<Longrightarrow>
   correct_token d token = Inr (c @ trailing)"
  by (simp add: correct_token_def)

lemma not_camel_no_upper_tail:
  "\<not> is_camel_case word \<Longrightarrow> list_all (\<lambda>c. \<not> isupper c) (drop 1 word)"
proof (cases word)
  case Nil
  then show ?thesis by simp
next
  case (Cons c cs)
  assume "\<not> is_camel_case word"
  with Cons show ?thesis
    by (cases cs) (auto simp: is_camel_case_def list_all_iff list_ex_iff)
qed

lemma multi_letter_upper_camel: "multi_letter_upper word \<Longrightarrow> is_camel_case word"
proof -
  assume m: "multi_letter_upper word"
  then obtain c c' cs where w: "word = c # c' # cs"
    by (cases word; cases "tl word") (auto simp: multi_letter_upper_def)
  with m show ?thesis
    by (simp add: multi_letter_upper_def is_camel_case_def)
qed

lemma multi_letter_upper_skip: "multi_letter_upper word \<Longrightarrow> should_skip_correction word"
  using multi_letter_upper_camel [of word] by (simp add: should_skip_correction_def)

section \<open>The correction engine\<close>

text \<open>
  Claim C1 (minor-typo guard), as the code has it. The guard \<^verbatim>\<open>_is_minor_typo\<close> compares the
  two character sets with \<^verbatim>\<open>!=\<close>: for a word of length 4 or more whose top suggestion is
  at edit distance exactly 1, the original word is returned unchanged when the set of its
  lowercased characters differs from the set of characters of the suggestion's term; when
  the two sets are equal (and the word is not a known common word) the top suggestion is
  applied, with the case of the original.
\<close>

theorem minor_typo_guard:
  "get_suggestions d word = s # rest \<Longrightarrow> distance s = 1 \<Longrightarrow> length word \<ge> 4 \<Longrightarrow>
   (set (lower word) \<noteq> set (sterm s) \<longrightarrow> apply_correction d word = Inr word) \<and>
   (set (lower word) = set (sterm s) \<and> \<not> word_exists_in_dictionary d word \<longrightarrow>
      apply_correction d word = preserve_case word (sterm s))"
  by (simp add: apply_correction_def is_minor_typo_def)

theorem minor_typo_guard_witness:
  "get_suggestions hallo_engine ''hallo'' = [suggestion ''hello'' 1 5000] \<and>
   distance (suggestion ''hello'' 1 5000) = 1 \<and> length ''hallo'' \<ge> 4 \<and>
   set (lower ''hallo'') \<noteq> set (sterm (suggestion ''hello'' 1 5000)) \<and>
   apply_correction hallo_engine ''hallo'' = Inr ''hallo'' \<and>
   get_suggestions aabb_engine ''aabb'' = [suggestion ''abab'' 1 5] \<and>
   set (lower ''aabb'') = set (sterm (suggestion ''abab'' 1 5)) \<and>
   \<not> word_exists_in_dictionary aabb_engine ''aabb'' \<and>
   apply_correction aabb_engine ''aabb'' = preserve_case ''aabb'' ''abab''"
proof -
  have g1: "get_suggestions hallo_engine ''hallo'' = suggestion ''hello'' 1 5000 # []"
    by code_simp
  have d1: "distance (suggestion ''hello'' 1 5000) = 1" by code_simp
  have n1: "length ''hallo'' \<ge> 4" by simp
  have s1: "set (lower ''hallo'') \<noteq> set (sterm (suggestion ''hello'' 1 5000))" by code_simp
  have g2: "get_suggestions aabb_engine ''aabb'' = suggestion ''abab'' 1 5 # []" by code_simp
  have d2: "distance (suggestion ''abab'' 1 5) = 1" by code_simp
  have n2: "length ''aabb'' \<ge> 4" by simp
  have s2: "set (lower ''aabb'') = set (sterm (suggestion ''abab'' 1 5))" by code_simp
  have w2: "\<not> word_exists_in_dictionary aabb_engine ''aabb''" by code_simp
  have t2: "sterm (suggestion ''abab'' 1 5) = ''abab''" by code_simp
  from minor_typo_guard [OF g1 d1 n1] s1
  have r1: "apply_correction hallo_engine ''hallo'' = Inr ''hallo''" by blast
  from minor_typo_guard [OF g2 d2 n2] s2 w2 t2
  have r2: "apply_correction aabb_engine ''aabb'' = preserve_case ''aabb'' ''abab''" by simp
  from g1 d1 n1 s1 r1 g2 s2 w2 r2 show ?thesis by simp
qed

text \<open>The claim as the specification words it (equal sets leave the word unchanged) fails
  on the specification's own example: "aabb" with the suggestion "abab" is replaced.\<close>

theorem minor_typo_guard_counterexample:
  "length ''aabb'' \<ge> 4 \<and>
   get_suggestions aabb_engine ''aabb'' = [suggestion ''abab'' 1 5] \<and>
   distance (suggestion ''abab'' 1 5) = 1 \<and>
   set (lower ''aabb'') = set (sterm (suggestion ''abab'' 1 5)) \<and>
   apply_correction aabb_engine ''aabb'' = Inr ''abab'' \<and>
   apply_correction aabb_engine ''aabb'' \<noteq> Inr ''aabb''"
  by code_simp

text \<open>
  Claim C7 (high-frequency short circuit). A word whose lowercased form is found by the
  lookup at edit distance zero with a count above 1000 is returned unchanged, and the
  answer does not depend on what the ranked suggestion lookup would return: every engine
  with the same exact-match answer gives the same result.
\<close>

theorem high_frequency_short_circuit:
  "lookup d (lower word) TOP 0 = s # rest \<Longrightarrow> count s > 1000 \<Longrightarrow>
   apply_correction d word = Inr word \<and>
   (\<forall>d'. lookup d' (lower word) TOP 0 = lookup d (lower word) TOP 0 \<longrightarrow>
         apply_correction d' word = Inr word)"
  by (simp add: apply_correction_def word_exists_in_dictionary_def)

theorem high_frequency_short_circuit_witness:
  "lookup the_engine (lower ''The'') TOP 0 = [suggestion ''the'' 0 5000] \<and>
   count (suggestion ''the'' 0 5000) > 1000 \<and>
   apply_correction the_engine ''The'' = Inr ''The''"
proof -
  have h1: "lookup the_engine (lower ''The'') TOP 0 = suggestion ''the'' 0 5000 # []"
    by code_simp
  have h2: "count (suggestion ''the'' 0 5000) > 1000" by code_simp
  from high_frequency_short_circuit [OF h1 h2] h1 h2 show ?thesis by simp
qed

text \<open>
  Claim C5 (case preservation), as the code has it. \<^verbatim>\<open>_preserve_case\<close> returns the
  correction in upper case when \<^verbatim>\<open>original.isupper()\<close> holds, that is when the original has
  an upper-case letter and no lower-case letter (so whenever it is made of upper-case
  letters only); otherwise, when the first character of the original is upper case, it
  returns \<^verbatim>\<open>corrected.capitalize()\<close>: first character in upper case, all the others in
  lower case; otherwise, for a non-empty original, it returns the correction as it is.
  With a dictionary whose top suggestion for "teh" is "the" at distance 1, the engine
  turns "TEH" into "THE", "Teh" into "The" and "teh" into "the".
\<close>

theorem preserve_case_cases:
  "(original \<noteq> [] \<and> list_all isupper original \<longrightarrow>
      preserve_case original corrected = Inr (upper corrected)) \<and>
   (str_isupper original \<longrightarrow> preserve_case original corrected = Inr (upper corrected)) \<and>
   (\<not> str_isupper original \<and> original \<noteq> [] \<and> isupper (hd original) \<longrightarrow>
      preserve_case original corrected = Inr (capitalize corrected)) \<and>
   (\<not> str_isupper original \<and> original \<noteq> [] \<and> \<not> isupper (hd original) \<longrightarrow>
      preserve_case original corrected = Inr corrected) \<and>
   capitalize corrected =
     (case corrected of [] \<Rightarrow> [] | c # cs \<Rightarrow> upper_char c # map lower_char cs) \<and>
   (\<not> word_exists_in_dictionary d ''teh'' \<and> get_suggestions d ''teh'' = s # rest \<and>
    sterm s = ''the'' \<and> distance s = 1 \<longrightarrow>
      apply_correction d ''TEH'' = Inr ''THE'' \<and> apply_correction d ''Teh'' = Inr ''The'' \<and>
      apply_correction d ''teh'' = Inr ''the'')"
proof -
  have a: "original \<noteq> [] \<and> list_all isupper original \<longrightarrow>
      preserve_case original corrected = Inr (upper corrected)"
    using all_upper_str_isupper [of original] by (simp add: preserve_case_def)
  have b: "str_isupper original \<longrightarrow> preserve_case original corrected = Inr (upper corrected)"
    by (simp add: preserve_case_def)
  have c: "\<not> str_isupper original \<and> original \<noteq> [] \<and> isupper (hd original) \<longrightarrow>
      preserve_case original corrected = Inr (capitalize corrected)"
    by (cases original) (simp_all add: preserve_case_def)
  have e: "\<not> str_isupper original \<and> original \<noteq> [] \<and> \<not> isupper (hd original) \<longrightarrow>
      preserve_case original corrected = Inr corrected"
    by (cases original) (simp_all add: preserve_case_def)
  have f: "capitalize corrected =
     (case corrected of [] \<Rightarrow> [] | c # cs \<Rightarrow> upper_char c # map lower_char cs)"
    by (cases corrected) (simp_all add: capitalize_def lower_def)
  have g: "\<not> word_exists_in_dictionary d ''teh'' \<and> get_suggestions d ''teh'' = s # rest \<and>
    sterm s = ''the'' \<and> distance s = 1 \<longrightarrow>
      apply_correction d ''TEH'' = Inr ''THE'' \<and> apply_correction d ''Teh'' = Inr ''The'' \<and>
      apply_correction d ''teh'' = Inr ''the''"
  proof (intro impI, elim conjE)
    assume h: "\<not> word_exists_in_dictionary d ''teh''" "get_suggestions d ''teh'' = s # rest"
      "sterm s = ''the''"
    have l1: "lower ''TEH'' = lower ''teh''" by code_simp
    have l2: "lower ''Teh'' = lower ''teh''" by code_simp
    have p1: "preserve_case ''TEH'' ''the'' = Inr ''THE''" by code_simp
    have p2: "preserve_case ''Teh'' ''the'' = Inr ''The''" by code_simp
    have p3: "preserve_case ''teh'' ''the'' = Inr ''the''" by code_simp
    have "apply_correction d ''TEH'' = preserve_case ''TEH'' (sterm s)"
      using h word_exists_lower [OF l1, of d] get_suggestions_lower [OF l1, of d]
      by (intro apply_correction_short) simp_all
    moreover have "apply_correction d ''Teh'' = preserve_case ''Teh'' (sterm s)"
      using h word_exists_lower [OF l2, of d] get_suggestions_lower [OF l2, of d]
      by (intro apply_correction_short) simp_all
    moreover have "apply_correction d ''teh'' = preserve_case ''teh'' (sterm s)"
      using h by (intro apply_correction_short) simp_all
    ultimately show "apply_correction d ''TEH'' = Inr ''THE'' \<and>
      apply_correction d ''Teh'' = Inr ''The'' \<and> apply_correction d ''teh'' = Inr ''the''"
      using h(3) p1 p2 p3 by simp
  qed
  from a b c e f g show ?thesis by blast
qed

theorem preserve_case_cases_witness:
  "''TEH'' \<noteq> [] \<and> list_all isupper ''TEH'' \<and> str_isupper ''TEH'' \<and>
   preserve_case ''TEH'' ''the'' = Inr (upper ''the'') \<and>
   \<not> word_exists_in_dictionary teh_engine ''teh'' \<and>
   get_suggestions teh_engine ''teh'' = [suggestion ''the'' 1 5000] \<and>
   apply_correction teh_engine ''TEH'' = Inr ''THE'' \<and>
   apply_correction teh_engine ''Teh'' = Inr ''The'' \<and>
   apply_correction teh_engine ''teh'' = Inr ''the''"
proof -
  have h1: "''TEH'' \<noteq> [] \<and> list_all isupper ''TEH''" by code_simp
  have h2: "str_isupper ''TEH''" by code_simp
  have h3: "\<not> word_exists_in_dictionary teh_engine ''teh''" by code_simp
  have h4: "get_suggestions teh_engine ''teh'' = suggestion ''the'' 1 5000 # []" by code_simp
  have h5: "sterm (suggestion ''the'' 1 5000) = ''the'' \<and> distance (suggestion ''the'' 1 5000) = 1"
    by code_simp
  from preserve_case_cases [of "''TEH''" "''the''" teh_engine "suggestion ''the'' 1 5000" "[]"]
    h1 h2 h3 h4 h5
  show ?thesis by simp
qed

text \<open>The claim as worded fails where the rest of the correction has an upper-case letter
  (\<^verbatim>\<open>capitalize\<close> lowers it), and where the original has caseless characters beside its
  upper-case letters ("B2" and "2B" take the all-uppercase branch).\<close>

theorem preserve_case_counterexample:
  "\<not> str_isupper ''Teh'' \<and> isupper (hd ''Teh'') \<and>
   preserve_case ''Teh'' ''tHe'' = Inr ''The'' \<and>
   ''The'' \<noteq> upper_char (hd ''tHe'') # tl ''tHe'' \<and>
   \<not> list_all isupper ''B2'' \<and> isupper (hd ''B2'') \<and>
   preserve_case ''B2'' ''be'' = Inr ''BE'' \<and>
   ''BE'' \<noteq> upper_char (hd ''be'') # tl ''be'' \<and>
   \<not> list_all isupper ''2B'' \<and> \<not> isupper (hd ''2B'') \<and>
   preserve_case ''2B'' ''be'' = Inr ''BE''"
  by code_simp

section \<open>The pipeline\<close>

text \<open>
  Claim C2 (punctuation preservation), evaluated on the code. With a dictionary that
  corrects "helllo" to "hello", the token "helllo," becomes "hello,"; the token "(helllo)"
  becomes "helloo)" and not "(hello)": \<^verbatim>\<open>_extract_word\<close> strips both ends of the token but
  takes the punctuation to put back as \<^verbatim>\<open>token[len(word):]\<close>, which is the trailing
  punctuation only when nothing was stripped at the front.
\<close>

theorem punctuation_reattached:
  assumes "\<not> word_exists_in_dictionary d ''helllo''"
    and "get_suggestions d ''helllo'' = s # rest"
    and "sterm s = ''hello''"
  shows "correct_text (Some d) ''helllo,'' = Inr ''hello,'' \<and>
         correct_text (Some d) ''(helllo)'' = Inr ''helloo)''"
proof -
  have sets: "set (lower ''helllo'') = set ''hello''" by code_simp
  have pc: "preserve_case ''helllo'' ''hello'' = Inr ''hello''" by code_simp
  have ac: "apply_correction d ''helllo'' = Inr ''hello''"
    using assms sets pc by (simp add: apply_correction_def is_minor_typo_def)
  have ns: "\<not> should_skip_correction ''helllo''" by code_simp
  have t1: "tokenize ''helllo,'' = [''helllo,'']" by code_simp
  have n1: "\<not> str_isspace ''helllo,''" by code_simp
  have e1: "extract_word ''helllo,'' = (''helllo'', '','')" by code_simp
  have t2: "tokenize ''(helllo)'' = [''(helllo)'']" by code_simp
  have n2: "\<not> str_isspace ''(helllo)''" by code_simp
  have e2: "extract_word ''(helllo)'' = (''helllo'', ''o)'')" by code_simp
  have "correct_token d ''helllo,'' = Inr (''hello'' @ '','')"
    by (rule correct_token_applied [OF n1 e1 ns ac])
  then have r1: "correct_text (Some d) ''helllo,'' = Inr ''hello,''"
    using correct_text_single [OF t1] by simp
  have "correct_token d ''(helllo)'' = Inr (''hello'' @ ''o)'')"
    by (rule correct_token_applied [OF n2 e2 ns ac])
  then have r2: "correct_text (Some d) ''(helllo)'' = Inr ''helloo)''"
    using correct_text_single [OF t2] by simp
  from r1 r2 show ?thesis by simp
qed

theorem punctuation_reattached_witness:
  "\<not> word_exists_in_dictionary helllo_engine ''helllo'' \<and>
   get_suggestions helllo_engine ''helllo'' = [suggestion ''hello'' 1 5000] \<and>
   sterm (suggestion ''hello'' 1 5000) = ''hello'' \<and>
   correct_text (Some helllo_engine) ''helllo,'' = Inr ''hello,'' \<and>
   correct_text (Some helllo_engine) ''(helllo)'' = Inr ''helloo)''"
proof -
  have h1: "\<not> word_exists_in_dictionary helllo_engine ''helllo''" by code_simp
  have h2: "get_suggestions helllo_engine ''helllo'' = suggestion ''hello'' 1 5000 # []"
    by code_simp
  have h3: "sterm (suggestion ''hello'' 1 5000) = ''hello''" by code_simp
  from punctuation_reattached [OF h1 h2 h3] h1 h2 h3 show ?thesis by simp
qed

text \<open>
  Claim C3 (skip-list correctness). Each of the listed inputs, given as the whole text, is
  one token that the eligibility filter skips, so \<open>correct_text\<close> returns it unchanged
  for every dictionary, and also without a dictionary. The path is given with single and
  with doubled backslashes.
\<close>

theorem skip_list_unchanged:
  "correct_text checker ''http://example.com'' = Inr ''http://example.com'' \<and>
   correct_text checker (''C:'' @ [CHR 0x5C] @ ''path'' @ [CHR 0x5C] @ ''to'' @ [CHR 0x5C] @ ''file'')
     = Inr (''C:'' @ [CHR 0x5C] @ ''path'' @ [CHR 0x5C] @ ''to'' @ [CHR 0x5C] @ ''file'') \<and>
   correct_text checker (''C:'' @ [CHR 0x5C, CHR 0x5C] @ ''path'' @ [CHR 0x5C, CHR 0x5C] @ ''to'' @
                         [CHR 0x5C, CHR 0x5C] @ ''file'')
     = Inr (''C:'' @ [CHR 0x5C, CHR 0x5C] @ ''path'' @ [CHR 0x5C, CHR 0x5C] @ ''to'' @
            [CHR 0x5C, CHR 0x5C] @ ''file'') \<and>
   correct_text checker ''NASA'' = Inr ''NASA'' \<and>
   correct_text checker ''getUserId'' = Inr ''getUserId'' \<and>
   correct_text checker ''max_value'' = Inr ''max_value'' \<and>
   correct_text checker ''#FF00FF'' = Inr ''#FF00FF'' \<and>
   correct_text checker ''0x1A'' = Inr ''0x1A'' \<and>
   correct_text checker ''42'' = Inr ''42''"
proof -
  have t1: "tokenize ''http://example.com'' = [''http://example.com'']" by code_simp
  have s1: "skipped ''http://example.com''" by code_simp
  have t2: "tokenize (''C:'' @ [CHR 0x5C] @ ''path'' @ [CHR 0x5C] @ ''to'' @ [CHR 0x5C] @ ''file'')
     = [''C:'' @ [CHR 0x5C] @ ''path'' @ [CHR 0x5C] @ ''to'' @ [CHR 0x5C] @ ''file'']" by code_simp
  have s2: "skipped (''C:'' @ [CHR 0x5C] @ ''path'' @ [CHR 0x5C] @ ''to'' @ [CHR 0x5C] @ ''file'')"
    by code_simp
  have t2': "tokenize (''C:'' @ [CHR 0x5C, CHR 0x5C] @ ''path'' @ [CHR 0x5C, CHR 0x5C] @ ''to'' @
                         [CHR 0x5C, CHR 0x5C] @ ''file'')
     = [''C:'' @ [CHR 0x5C, CHR 0x5C] @ ''path'' @ [CHR 0x5C, CHR 0x5C] @ ''to'' @
                         [CHR 0x5C, CHR 0x5C] @ ''file'']" by code_simp
  have s2': "skipped (''C:'' @ [CHR 0x5C, CHR 0x5C] @ ''path'' @ [CHR 0x5C, CHR 0x5C] @ ''to'' @
                         [CHR 0x5C, CHR 0x5C] @ ''file'')"
    by code_simp
  have t3: "tokenize ''NASA'' = [''NASA'']" by code_simp
  have s3: "skipped ''NASA''" by code_simp
  have t4: "tokenize ''getUserId'' = [''getUserId'']" by code_simp
  have s4: "skipped ''getUserId''" by code_simp
  have t5: "tokenize ''max_value'' = [''max_value'']" by code_simp
  have s5: "skipped ''max_value''" by code_simp
  have t6: "tokenize ''#FF00FF'' = [''#FF00FF'']" by code_simp
  have s6: "skipped ''#FF00FF''" by code_simp
  have t7: "tokenize ''0x1A'' = [''0x1A'']" by code_simp
  have s7: "skipped ''0x1A''" by code_simp
  have t8: "tokenize ''42'' = [''42'']" by code_simp
  have s8: "skipped ''42''" by code_simp
  show ?thesis
    using single_skipped_token [OF t1 s1] single_skipped_token [OF t2 s2]
      single_skipped_token [OF t2' s2']
      single_skipped_token [OF t3 s3] single_skipped_token [OF t4 s4]
      single_skipped_token [OF t5 s5] single_skipped_token [OF t6 s6]
      single_skipped_token [OF t7 s7] single_skipped_token [OF t8 s8]
    by blast
qed

text \<open>
  Claim C6 (degradation to identity), as the code has it. When the dictionary file is
  missing and the download does not create it, \<^verbatim>\<open>_create_spell_checker\<close> returns
  \<^verbatim>\<open>None\<close>, and this is the only case in which it does; without a dictionary
  \<open>correct_text\<close> returns every text unchanged and raises nothing, so that the program
  prints its input.
\<close>

theorem unavailable_dictionary_identity:
  "correct_text None text = Inr text \<and>
   (create_spell_checker env = Inr None) =
     (\<not> file_exists env \<and> \<not> download_creates_file env) \<and>
   (\<not> file_exists env \<and> \<not> download_creates_file env \<longrightarrow>
      create_spell_checker env = Inr None \<and>
      spellcheck_main env text = Inr (text @ [CHR 0x0A]))"
  by (auto simp: correct_text_def create_spell_checker_def spellcheck_main_def
      split: sum.splits)

theorem unavailable_dictionary_identity_witness:
  "\<not> file_exists missing_env \<and> \<not> download_creates_file missing_env \<and>
   create_spell_checker missing_env = Inr None \<and>
   correct_text None ''(helllo) wrld'' = Inr ''(helllo) wrld'' \<and>
   spellcheck_main missing_env ''(helllo) wrld'' = Inr (''(helllo) wrld'' @ [CHR 0x0A])"
proof -
  have h: "\<not> file_exists missing_env \<and> \<not> download_creates_file missing_env"
    by (simp add: missing_env_def)
  from unavailable_dictionary_identity [of "''(helllo) wrld''" missing_env] h
  show ?thesis by blast
qed

text \<open>The claim as worded also covers a dictionary that cannot be loaded. A file that
  exists and that \<^verbatim>\<open>load_dictionary\<close> cannot decode makes the constructor raise, and the
  exception ends the program; a file that exists and yields no entry gives an engine, not
  \<^verbatim>\<open>None\<close>, and the output is then not always the input.\<close>

theorem unavailable_dictionary_identity_counterexample:
  "file_exists undecodable_env \<and> load_dictionary undecodable_env = Inl LoadError \<and>
   create_spell_checker undecodable_env = Inl LoadError \<and>
   spellcheck_main undecodable_env ''hello'' = Inl LoadError \<and>
   file_exists no_entry_env \<and> load_dictionary no_entry_env = Inr empty_engine \<and>
   create_spell_checker no_entry_env = Inr (Some empty_engine) \<and>
   correct_text (Some empty_engine) ''(hello)'' = Inr ''helloo)'' \<and>
   spellcheck_main no_entry_env ''(hello)'' = Inr (''helloo)'' @ [CHR 0x0A])"
proof -
  have a: "file_exists undecodable_env \<and> load_dictionary undecodable_env = Inl LoadError \<and>
    create_spell_checker undecodable_env = Inl LoadError \<and>
    spellcheck_main undecodable_env ''hello'' = Inl LoadError"
    by (simp add: undecodable_env_def create_spell_checker_def spellcheck_main_def)
  have b: "file_exists no_entry_env \<and> load_dictionary no_entry_env = Inr empty_engine \<and>
    create_spell_checker no_entry_env = Inr (Some empty_engine)"
    by (simp add: no_entry_env_def create_spell_checker_def)
  have c: "correct_text (Some empty_engine) ''(hello)'' = Inr ''helloo)''"
    by code_simp
  from b c have d: "spellcheck_main no_entry_env ''(hello)'' = Inr (''helloo)'' @ [CHR 0x0A])"
    by (simp add: spellcheck_main_def)
  from a b c d show ?thesis by blast
qed

text \<open>
  Claim C9 (skipped tokens are identities). A token that is white space only, or whose
  stripped word is empty, or whose word is caught by a rule of the eligibility filter, is
  returned by \<open>correct_token\<close> as it is, for every dictionary; and the output of
  \<open>correct_text\<close> is the concatenation of one piece per token, in order, the piece of
  every such token being the token itself.
\<close>

theorem skipped_tokens_identity:
  "(str_isspace token \<or> fst (extract_word token) = [] \<or>
      should_skip_correction (fst (extract_word token))
    \<longrightarrow> correct_token d token = Inr token) \<and>
   (\<exists>cs. correct_text (Some d) text = Inr (concat cs) \<and>
         length cs = length (tokenize text) \<and>
         (\<forall>i<length cs. correct_token d (tokenize text ! i) = Inr (cs ! i)) \<and>
         (\<forall>i<length cs. skipped (tokenize text ! i) \<longrightarrow> cs ! i = tokenize text ! i))"
proof
  show "str_isspace token \<or> fst (extract_word token) = [] \<or>
      should_skip_correction (fst (extract_word token))
    \<longrightarrow> correct_token d token = Inr token"
    using correct_token_skipped [of token d] should_skip_Nil by (auto simp: skipped_def)
next
  obtain cs where cs: "correct_tokens d (tokenize text) = Inr cs"
    "length cs = length (tokenize text)"
    "\<forall>i<length (tokenize text). correct_token d (tokenize text ! i) = Inr (cs ! i)"
    using correct_tokens_total by blast
  have "\<forall>i<length cs. skipped (tokenize text ! i) \<longrightarrow> cs ! i = tokenize text ! i"
    using cs(2,3) correct_token_skipped [of _ d] by fastforce
  with cs show "\<exists>cs. correct_text (Some d) text = Inr (concat cs) \<and>
         length cs = length (tokenize text) \<and>
         (\<forall>i<length cs. correct_token d (tokenize text ! i) = Inr (cs ! i)) \<and>
         (\<forall>i<length cs. skipped (tokenize text ! i) \<longrightarrow> cs ! i = tokenize text ! i)"
    by (auto simp: correct_text_def)
qed

theorem skipped_tokens_identity_witness:
  "fst (extract_word ''(#)'') = [] \<and> correct_token helllo_engine ''(#)'' = Inr ''(#)'' \<and>
   should_skip_correction (fst (extract_word ''(NASA)'')) \<and>
   correct_token helllo_engine ''(NASA)'' = Inr ''(NASA)''"
proof -
  have h1: "fst (extract_word ''(#)'') = []" by code_simp
  have h2: "should_skip_correction (fst (extract_word ''(NASA)''))" by code_simp
  from skipped_tokens_identity [of "''(#)''" helllo_engine "[]"] h1
  have r1: "correct_token helllo_engine ''(#)'' = Inr ''(#)''" by blast
  from skipped_tokens_identity [of "''(NASA)''" helllo_engine "[]"] h2
  have r2: "correct_token helllo_engine ''(NASA)'' = Inr ''(NASA)''" by blast
  from h1 h2 r1 r2 show ?thesis by simp
qed

text \<open>
  Claim C10 (the all-uppercase branch in the pipeline), as the code has it. A word that
  passes the eligibility filter has no upper-case letter after its first character. If
  such a word takes the all-uppercase branch of case preservation, its first character is
  an upper-case letter and all its other characters are caseless (digits, punctuation):
  the word need not be a single character. No word of two or more characters that are all
  upper-case letters passes the filter, and a token with such a word is returned as it is
  for every dictionary.
\<close>

theorem eligible_word_case_shape:
  "(\<not> should_skip_correction word \<longrightarrow>
      list_all (\<lambda>c. \<not> isupper c) (drop 1 word) \<and>
      (str_isupper word \<longrightarrow>
         isupper (hd word) \<and> list_all (\<lambda>c. \<not> isupper c \<and> \<not> islower c) (drop 1 word)) \<and>
      \<not> multi_letter_upper word) \<and>
   (multi_letter_upper (fst (extract_word token)) \<longrightarrow> correct_token d token = Inr token)"
proof (intro conjI impI)
  assume ns: "\<not> should_skip_correction word"
  then have nc: "\<not> is_camel_case word" and ne: "word \<noteq> []"
    by (auto simp: should_skip_correction_def split: if_splits)
  show tail: "list_all (\<lambda>c. \<not> isupper c) (drop 1 word)"
    using nc by (rule not_camel_no_upper_tail)
  show "\<not> multi_letter_upper word"
    using ns multi_letter_upper_skip by blast
  assume up: "str_isupper word"
  from ne obtain c cs where w: "word = c # cs" by (cases word) auto
  from tail w have t: "\<forall>x\<in>set cs. \<not> isupper x" by (simp add: list_all_iff)
  from up w t show "isupper (hd word)"
    by (auto simp: str_isupper_def list_ex_iff)
  from up w t show "list_all (\<lambda>c. \<not> isupper c \<and> \<not> islower c) (drop 1 word)"
    by (auto simp: str_isupper_def list_ex_iff list_all_iff)
next
  assume "multi_letter_upper (fst (extract_word token))"
  then have "skipped token"
    using multi_letter_upper_skip by (simp add: skipped_def)
  then show "correct_token d token = Inr token" by (rule correct_token_skipped)
qed

theorem eligible_word_case_shape_witness:
  "\<not> should_skip_correction ''Teh'' \<and> list_all (\<lambda>c. \<not> isupper c) (drop 1 ''Teh'') \<and>
   \<not> multi_letter_upper ''Teh'' \<and>
   multi_letter_upper (fst (extract_word ''TEH,'')) \<and>
   correct_token teh_engine ''TEH,'' = Inr ''TEH,''"
proof -
  have h1: "\<not> should_skip_correction ''Teh''" by code_simp
  have h2: "multi_letter_upper (fst (extract_word ''TEH,''))" by code_simp
  from eligible_word_case_shape [of "''Teh''" "''TEH,''" teh_engine] h1 h2
  show ?thesis by blast
qed

theorem eligible_word_case_shape_counterexample:
  "\<not> should_skip_correction ''B2'' \<and> length ''B2'' = 2 \<and> str_isupper ''B2'' \<and>
   tokenize ''B2'' = [''B2''] \<and> extract_word ''B2'' = (''B2'', []) \<and>
   get_suggestions b2_engine ''B2'' = [suggestion ''be'' 1 5000] \<and>
   preserve_case ''B2'' ''be'' = Inr (upper ''be'') \<and>
   correct_text (Some b2_engine) ''B2'' = Inr ''BE''"
  by code_simp

section \<open>The command loop of the classifier\<close>











end
